theory Spec2Isabelle
  imports Complex_Main "HOL-Library.Word"
begin

unbundle bit_operations_syntax

section \<open>Python values shared by the modules\<close>

text \<open>
  A Python \<open>str\<close> is a sequence of Unicode code points, \<open>bytes\<close> a sequence of octets.
  Exceptions are values. \<open>Raised m\<close> stands for an exception that comes from the
  interpreter or the operating system and of which the program only uses the text
  \<open>str(e) = m\<close>.
\<close>

type_synonym byte = "8 word"
type_synonym bytes = "byte list"
type_synonym pystr = "nat list"

datatype exn =
    ValueError
  | IndexError
  | ZeroDivisionError
  | OverflowError
  | UnicodeDecodeError
  | UnicodeEncodeError
  | AttributeError
  | SocketTimeout
  | Raised pystr

text \<open>
  Python floats are IEEE doubles, computed by the interpreter and not by this repository.
  The model takes their arithmetic as a parameter: a carrier \<open>'f\<close> with the literals,
  the operations and the comparisons the program uses. \<open>f_of_int\<close> is the conversion an
  \<open>int / float\<close> division starts with; it is \<open>None\<close> where Python raises
  \<open>OverflowError\<close> (an integer beyond the range of a double). Every theorem below holds
  for every such structure, so for doubles with their rounding, infinities and NaN.
\<close>

record 'f pyfloat =
  f_lit :: "real \<Rightarrow> 'f"
  f_of_int :: "int \<Rightarrow> 'f option"
  f_add :: "'f \<Rightarrow> 'f \<Rightarrow> 'f"
  f_sub :: "'f \<Rightarrow> 'f \<Rightarrow> 'f"
  f_mul :: "'f \<Rightarrow> 'f \<Rightarrow> 'f"
  f_div :: "'f \<Rightarrow> 'f \<Rightarrow> 'f"
  f_abs :: "'f \<Rightarrow> 'f"
  f_eq :: "'f \<Rightarrow> 'f \<Rightarrow> bool"
  f_lt :: "'f \<Rightarrow> 'f \<Rightarrow> bool"
  f_le :: "'f \<Rightarrow> 'f \<Rightarrow> bool"

text \<open>
  One structure to evaluate concrete calls with: exact arithmetic on the reals. It is used
  in witnesses and counterexamples only, and only facts about integer fields are read off
  them.
\<close>

definition exact_floats :: "real pyfloat" where
  "exact_floats =
     \<lparr> f_lit = (\<lambda>x. x),
       f_of_int = (\<lambda>i. Some (real_of_int i)),
       f_add = (+), f_sub = (-), f_mul = (*), f_div = (/),
       f_abs = abs, f_eq = (=), f_lt = (<), f_le = (\<le>) \<rparr>"

section \<open>server/flow\_control.py\<close>

text \<open>
  The fields of \<open>FlowController\<close>, in the order \<open>__init__\<close> assigns them. The lock is
  left out: every method body runs under it, so each method is one atomic state
  transformer.
\<close>

record 'f FlowController =
  window_size :: int
  max_window_size :: int
  min_window_size :: int
  ssthresh :: int
  cwnd :: int
  in_slow_start :: bool
  rtt_samples :: "'f list"
  smoothed_rtt :: 'f
  rtt_variance :: 'f
  packets_in_flight :: int
  total_packets_sent :: int
  total_packets_acked :: int
  retransmissions :: int
  throughput_samples :: "'f list"
  last_stat_time :: 'f
  bytes_transferred :: int

text \<open>\<open>deque(maxlen=m).append(x)\<close>: once full, the oldest element is dropped.\<close>

definition deque_append :: "nat \<Rightarrow> 'a list \<Rightarrow> 'a \<Rightarrow> 'a list" where
  "deque_append m xs x = drop (length xs + 1 - m) (xs @ [x])"

text \<open>\<open>__init__(initial_window_size)\<close>; \<open>now\<close> is the reading of \<open>time.time()\<close>.\<close>

definition FlowController_init :: "'f pyfloat \<Rightarrow> int \<Rightarrow> 'f \<Rightarrow> 'f FlowController" where
  "FlowController_init F initial_window_size now =
     \<lparr> window_size = initial_window_size,
       max_window_size = 1048576,
       min_window_size = 4096,
       ssthresh = initial_window_size div 2,
       cwnd = 4096,
       in_slow_start = True,
       rtt_samples = [],
       smoothed_rtt = f_lit F 0,
       rtt_variance = f_lit F 0,
       packets_in_flight = 0,
       total_packets_sent = 0,
       total_packets_acked = 0,
       retransmissions = 0,
       throughput_samples = [],
       last_stat_time = now,
       bytes_transferred = 0 \<rparr>"

definition can_send :: "int \<Rightarrow> 'f FlowController \<Rightarrow> bool" where
  "can_send data_size s =
     (let bytes_in_flight = packets_in_flight s * 1024
      in bytes_in_flight + data_size \<le> cwnd s)"

definition on_packet_sent :: "int \<Rightarrow> 'f FlowController \<Rightarrow> 'f FlowController" where
  "on_packet_sent packet_size s =
     s\<lparr> packets_in_flight := packets_in_flight s + 1,
        total_packets_sent := total_packets_sent s + 1,
        bytes_transferred := bytes_transferred s + packet_size \<rparr>"

text \<open>
  \<open>_update_rtt\<close>: the comparison \<open>smoothed_rtt == 0\<close> and the moving averages are
  float operations.
\<close>

definition update_rtt :: "'f pyfloat \<Rightarrow> 'f \<Rightarrow> 'f FlowController \<Rightarrow> 'f FlowController" where
  "update_rtt F rtt_sample s =
     (let s1 = s\<lparr> rtt_samples := deque_append 10 (rtt_samples s) rtt_sample \<rparr>
      in if f_eq F (smoothed_rtt s1) (f_lit F 0)
         then s1\<lparr> smoothed_rtt := rtt_sample,
                  rtt_variance := f_div F rtt_sample (f_lit F 2) \<rparr>
         else
           (let alpha = f_lit F (1 / 8);
                beta = f_lit F (1 / 4);
                err = f_sub F rtt_sample (smoothed_rtt s1);
                s2 = s1\<lparr> smoothed_rtt := f_add F (smoothed_rtt s1) (f_mul F alpha err) \<rparr>
            in s2\<lparr> rtt_variance :=
                     f_add F (rtt_variance s2)
                       (f_mul F beta (f_sub F (f_abs F err) (rtt_variance s2))) \<rparr>))"

text \<open>
  \<open>_update_throughput\<close>: \<open>bytes_transferred / time_delta\<close> divides an \<open>int\<close> by a
  float, so it raises \<open>OverflowError\<close> when the integer has no double; nothing has been
  assigned at that point. The divisor is at least \<open>1.0\<close> there, so the division itself
  does not raise.
\<close>

definition update_throughput ::
  "'f pyfloat \<Rightarrow> 'f \<Rightarrow> 'f FlowController \<Rightarrow> exn option \<times> 'f FlowController" where
  "update_throughput F current_time s =
     (let time_delta = f_sub F current_time (last_stat_time s)
      in if f_le F (f_lit F 1) time_delta
         then
           (case f_of_int F (bytes_transferred s) of
              None \<Rightarrow> (Some OverflowError, s)
            | Some b \<Rightarrow>
                (None,
                 s\<lparr> throughput_samples :=
                      deque_append 20 (throughput_samples s) (f_div F b time_delta),
                    bytes_transferred := 0,
                    last_stat_time := current_time \<rparr>))
         else (None, s))"

text \<open>
  \<open>on_ack_received(packet_size, rtt)\<close>. The object is mutated in place, so the state
  is returned also when the method raises. \<open>//\<close> by a zero \<open>cwnd\<close> raises
  \<open>ZeroDivisionError\<close> after the counters and the RTT estimate have been updated and
  before the clamp; \<open>_update_throughput\<close> may raise after the window has been updated
  and clamped. Python's \<open>//\<close> rounds towards minus infinity, as \<open>div\<close> on \<open>int\<close>
  does.
\<close>

definition on_ack_received ::
  "'f pyfloat \<Rightarrow> int \<Rightarrow> 'f \<Rightarrow> 'f \<Rightarrow> 'f FlowController \<Rightarrow> exn option \<times> 'f FlowController" where
  "on_ack_received F packet_size rtt now s =
     (let s1 = s\<lparr> packets_in_flight := packets_in_flight s - 1,
                  total_packets_acked := total_packets_acked s + 1 \<rparr>;
          s2 = update_rtt F rtt s1
      in if in_slow_start s2
         then
           (let s3 = s2\<lparr> cwnd := cwnd s2 + packet_size \<rparr>;
                s4 = (if cwnd s3 \<ge> ssthresh s3 then s3\<lparr> in_slow_start := False \<rparr> else s3);
                s5 = s4\<lparr> cwnd := min (cwnd s4) (max_window_size s4) \<rparr>
            in update_throughput F now s5)
         else if cwnd s2 = 0 then (Some ZeroDivisionError, s2)
         else
           (let increment = (packet_size * packet_size) div cwnd s2;
                s3 = s2\<lparr> cwnd := cwnd s2 + max 1 increment \<rparr>;
                s5 = s3\<lparr> cwnd := min (cwnd s3) (max_window_size s3) \<rparr>
            in update_throughput F now s5))"

definition on_packet_loss :: "'f FlowController \<Rightarrow> 'f FlowController" where
  "on_packet_loss s =
     (let s1 = s\<lparr> retransmissions := retransmissions s + 1 \<rparr>;
          s2 = s1\<lparr> ssthresh := max (cwnd s1 div 2) (min_window_size s1) \<rparr>;
          s3 = s2\<lparr> cwnd := ssthresh s2 \<rparr>
      in s3\<lparr> in_slow_start := False \<rparr>)"

definition on_timeout :: "'f FlowController \<Rightarrow> 'f FlowController" where
  "on_timeout s =
     (let s1 = s\<lparr> ssthresh := max (cwnd s div 2) (min_window_size s) \<rparr>;
          s2 = s1\<lparr> cwnd := min_window_size s1 \<rparr>
      in s2\<lparr> in_slow_start := True \<rparr>)"

text \<open>
  Python's \<open>min(a, b)\<close> and \<open>max(a, b)\<close> keep the first argument unless the second
  is strictly smaller, respectively larger.
\<close>

definition py_min :: "'f pyfloat \<Rightarrow> 'f \<Rightarrow> 'f \<Rightarrow> 'f" where
  "py_min F a b = (if f_lt F b a then b else a)"

definition py_max :: "'f pyfloat \<Rightarrow> 'f \<Rightarrow> 'f \<Rightarrow> 'f" where
  "py_max F a b = (if f_lt F a b then b else a)"

definition get_timeout :: "'f pyfloat \<Rightarrow> 'f FlowController \<Rightarrow> 'f" where
  "get_timeout F s =
     (if f_eq F (smoothed_rtt s) (f_lit F 0) then f_lit F 1
      else (let rto = f_add F (smoothed_rtt s) (f_mul F (f_lit F 4) (rtt_variance s))
            in py_max F (f_lit F (1 / 5)) (py_min F rto (f_lit F 60))))"

text \<open>
  A call of one of the six public methods, and the controller after it (also after a call
  that raised: the caller keeps the object). \<open>can_send\<close> and \<open>get_timeout\<close> only
  read. \<open>fc_run\<close> is the controller after a sequence of calls.
\<close>

datatype 'f fc_call =
    Can_send int
  | On_packet_sent int
  | On_ack_received int 'f 'f
  | On_packet_loss
  | On_timeout
  | Get_timeout

fun fc_step :: "'f pyfloat \<Rightarrow> 'f FlowController \<Rightarrow> 'f fc_call \<Rightarrow> 'f FlowController" where
  "fc_step F s (Can_send n) = s"
| "fc_step F s (On_packet_sent n) = on_packet_sent n s"
| "fc_step F s (On_ack_received n rtt now) = snd (on_ack_received F n rtt now s)"
| "fc_step F s On_packet_loss = on_packet_loss s"
| "fc_step F s On_timeout = on_timeout s"
| "fc_step F s Get_timeout = s"

definition fc_run :: "'f pyfloat \<Rightarrow> 'f FlowController \<Rightarrow> 'f fc_call list \<Rightarrow> 'f FlowController" where
  "fc_run F s cs = foldl (fc_step F) s cs"

text \<open>Counting the calls of a sequence: sends, acknowledgements, window decreases.\<close>

fun is_sent :: "'f fc_call \<Rightarrow> bool" where
  "is_sent (On_packet_sent n) = True"
| "is_sent c = False"

fun is_ack :: "'f fc_call \<Rightarrow> bool" where
  "is_ack (On_ack_received n rtt now) = True"
| "is_ack c = False"


definition n_sent :: "'f fc_call list \<Rightarrow> int" where
  "n_sent cs = int (length (filter is_sent cs))"

definition n_acked :: "'f fc_call list \<Rightarrow> int" where
  "n_acked cs = int (length (filter is_ack cs))"




text \<open>
  The state predicate of the data model: \<open>min_window \<le> cwnd \<le> max_window\<close> with the two
  constants 4096 and 1048576, \<open>ssthresh \<ge> min_window\<close>, \<open>packets_in_flight \<ge> 0\<close>.
  \<open>fc_consts\<close> is its constant part.
\<close>

definition fc_inv :: "'f FlowController \<Rightarrow> bool" where
  "fc_inv s \<longleftrightarrow>
     min_window_size s \<le> cwnd s \<and> cwnd s \<le> max_window_size s \<and>
     min_window_size s = 4096 \<and> max_window_size s = 1048576 \<and>
     min_window_size s \<le> ssthresh s \<and> 0 \<le> packets_in_flight s"


section \<open>str.encode() and bytes.decode()\<close>

text \<open>
  Both default to UTF-8 with strict error handling. \<open>utf8_encode\<close> is \<open>None\<close> where
  \<open>str.encode()\<close> raises \<open>UnicodeEncodeError\<close> (a surrogate code point; a value
  from 1114112 on is no code point at all). \<open>utf8_decode\<close> is \<open>None\<close> where
  \<open>bytes.decode()\<close> raises \<open>UnicodeDecodeError\<close>: a stray or missing continuation
  byte, an overlong form, a surrogate, a value beyond U+10FFFF.
\<close>

definition byte_of_nat :: "nat \<Rightarrow> byte" where
  "byte_of_nat n = of_nat n"

definition is_cont :: "byte \<Rightarrow> bool" where
  "is_cont b \<longleftrightarrow> 128 \<le> unat b \<and> unat b < 192"

definition cont_byte :: "nat \<Rightarrow> byte" where
  "cont_byte x = byte_of_nat (128 + x mod 64)"

definition utf8_encode_cp :: "nat \<Rightarrow> bytes option" where
  "utf8_encode_cp c =
     (if c < 128 then Some [byte_of_nat c]
      else if c < 2048 then Some [byte_of_nat (192 + c div 64), cont_byte c]
      else if c < 65536 then
        (if 55296 \<le> c \<and> c \<le> 57343 then None
         else Some [byte_of_nat (224 + c div 4096), cont_byte (c div 64), cont_byte c])
      else if c < 1114112 then
        Some [byte_of_nat (240 + c div 262144), cont_byte (c div 4096), cont_byte (c div 64),
              cont_byte c]
      else None)"

fun utf8_encode :: "pystr \<Rightarrow> bytes option" where
  "utf8_encode [] = Some []"
| "utf8_encode (c # cs) =
     (case utf8_encode_cp c of
        None \<Rightarrow> None
      | Some bs \<Rightarrow> (case utf8_encode cs of None \<Rightarrow> None | Some rest \<Rightarrow> Some (bs @ rest)))"

fun utf8_decode :: "bytes \<Rightarrow> pystr option" where
  "utf8_decode [] = Some []"
| "utf8_decode (b0 # bs) =
     (if unat b0 < 128 then map_option ((#) (unat b0)) (utf8_decode bs)
      else case bs of
        [] \<Rightarrow> None
      | b1 # bs1 \<Rightarrow>
          if \<not> is_cont b1 then None
          else if 194 \<le> unat b0 \<and> unat b0 < 224
          then map_option ((#) ((unat b0 - 192) * 64 + (unat b1 - 128))) (utf8_decode bs1)
          else case bs1 of
            [] \<Rightarrow> None
          | b2 # bs2 \<Rightarrow>
              if \<not> is_cont b2 then None
              else if 224 \<le> unat b0 \<and> unat b0 < 240
              then
                (let c = (unat b0 - 224) * 4096 + (unat b1 - 128) * 64 + (unat b2 - 128)
                 in if c < 2048 \<or> (55296 \<le> c \<and> c \<le> 57343) then None
                    else map_option ((#) c) (utf8_decode bs2))
              else case bs2 of
                [] \<Rightarrow> None
              | b3 # bs3 \<Rightarrow>
                  if \<not> is_cont b3 then None
                  else if 240 \<le> unat b0 \<and> unat b0 < 245
                  then
                    (let c = (unat b0 - 240) * 262144 + (unat b1 - 128) * 4096
                             + (unat b2 - 128) * 64 + (unat b3 - 128)
                     in if c < 65536 \<or> 1114112 \<le> c then None
                        else map_option ((#) c) (utf8_decode bs3))
                  else None)"


section \<open>shared/encryption.py\<close>

text \<open>
  AES itself is the \<open>cryptography\<close> package, not code of this repository: the model
  takes the block cipher as a parameter, a pair of functions from a key and a 16-byte
  block to a block. \<open>aes_ok\<close> says what is used of AES: for a key of 16, 24 or 32
  bytes, both directions map 16-byte blocks to 16-byte blocks and are inverse to each
  other.
\<close>

record blockcipher =
  block_encrypt :: "bytes \<Rightarrow> bytes \<Rightarrow> bytes"
  block_decrypt :: "bytes \<Rightarrow> bytes \<Rightarrow> bytes"

definition aes_key_size :: "bytes \<Rightarrow> bool" where
  "aes_key_size k \<longleftrightarrow> length k = 16 \<or> length k = 24 \<or> length k = 32"

definition aes_ok :: "blockcipher \<Rightarrow> bool" where
  "aes_ok A \<longleftrightarrow>
     (\<forall>k b. aes_key_size k \<longrightarrow> length b = 16 \<longrightarrow>
        length (block_encrypt A k b) = 16 \<and> length (block_decrypt A k b) = 16 \<and>
        block_decrypt A k (block_encrypt A k b) = b \<and>
        block_encrypt A k (block_decrypt A k b) = b)"

text \<open>
  CBC mode, as \<open>Cipher(algorithms.AES(key), modes.CBC(iv))\<close> computes it: every
  plaintext block is XORed with the previous ciphertext block (the IV for the first) and
  then encrypted; decryption undoes that. \<open>blocks16\<close> cuts a byte string into its
  16-byte blocks.
\<close>

definition xor_block :: "bytes \<Rightarrow> bytes \<Rightarrow> bytes" where
  "xor_block a b = map2 (XOR) a b"

fun blocks_aux :: "nat \<Rightarrow> bytes \<Rightarrow> bytes list" where
  "blocks_aux 0 xs = []"
| "blocks_aux (Suc n) xs = take 16 xs # blocks_aux n (drop 16 xs)"

definition blocks16 :: "bytes \<Rightarrow> bytes list" where
  "blocks16 xs = blocks_aux (length xs div 16) xs"

fun cbc_encrypt_blocks :: "blockcipher \<Rightarrow> bytes \<Rightarrow> bytes \<Rightarrow> bytes list \<Rightarrow> bytes list" where
  "cbc_encrypt_blocks A k prev [] = []"
| "cbc_encrypt_blocks A k prev (p # ps) =
     (let c = block_encrypt A k (xor_block p prev) in c # cbc_encrypt_blocks A k c ps)"

fun cbc_decrypt_blocks :: "blockcipher \<Rightarrow> bytes \<Rightarrow> bytes \<Rightarrow> bytes list \<Rightarrow> bytes list" where
  "cbc_decrypt_blocks A k prev [] = []"
| "cbc_decrypt_blocks A k prev (c # cs) =
     xor_block (block_decrypt A k c) prev # cbc_decrypt_blocks A k c cs"

text \<open>
  What the library checks. \<open>algorithms.AES(key)\<close> raises \<open>ValueError\<close> unless the key
  has 16, 24 or 32 bytes, and \<open>Cipher(...)\<close> raises \<open>ValueError\<close> unless the IV has 16
  bytes. \<open>update(data) + finalize()\<close> raises \<open>ValueError\<close> when the length of the data
  is not a multiple of the block length, and returns the empty byte string for empty
  data.
\<close>

definition Cipher_check :: "bytes \<Rightarrow> bytes \<Rightarrow> exn option" where
  "Cipher_check key iv =
     (if \<not> aes_key_size key then Some ValueError
      else if length iv \<noteq> 16 then Some ValueError
      else None)"

definition cbc_encryptor :: "blockcipher \<Rightarrow> bytes \<Rightarrow> bytes \<Rightarrow> bytes \<Rightarrow> exn + bytes" where
  "cbc_encryptor A key iv data =
     (if length data mod 16 \<noteq> 0 then Inl ValueError
      else Inr (concat (cbc_encrypt_blocks A key iv (blocks16 data))))"

definition cbc_decryptor :: "blockcipher \<Rightarrow> bytes \<Rightarrow> bytes \<Rightarrow> bytes \<Rightarrow> exn + bytes" where
  "cbc_decryptor A key iv data =
     (if length data mod 16 \<noteq> 0 then Inl ValueError
      else Inr (concat (cbc_decrypt_blocks A key iv (blocks16 data))))"

text \<open>
  \<open>_pad\<close> and \<open>_unpad\<close>. \<open>data[-1]\<close> raises \<open>IndexError\<close> on empty data. The
  slice \<open>data[:-n]\<close> is empty for \<open>n = 0\<close> (it is \<open>data[:0]\<close>) and for \<open>n\<close> beyond
  the length; otherwise it drops the last \<open>n\<close> bytes.
\<close>

definition pad :: "bytes \<Rightarrow> bytes" where
  "pad data =
     (let padding_length = 16 - length data mod 16
      in data @ replicate padding_length (byte_of_nat padding_length))"

definition unpad :: "bytes \<Rightarrow> exn + bytes" where
  "unpad data =
     (if data = [] then Inl IndexError
      else (let padding_length = unat (last data)
            in Inr (if padding_length = 0 then []
                    else take (length data - padding_length) data)))"

text \<open>
  \<open>encrypt_aes(data, aes_key)\<close> takes a \<open>str\<close> or \<open>bytes\<close>
  (\<open>data.encode() if isinstance(data, str) else data\<close>); \<open>iv\<close> is what
  \<open>os.urandom(16)\<close> returned. \<open>decrypt_aes\<close> ends with \<open>plaintext.decode()\<close> and
  returns a \<open>str\<close>.
\<close>

datatype pydata = Str pystr | Bytes bytes

definition encode_data :: "pydata \<Rightarrow> bytes option" where
  "encode_data data = (case data of Str s \<Rightarrow> utf8_encode s | Bytes b \<Rightarrow> Some b)"

definition encrypt_aes :: "blockcipher \<Rightarrow> pydata \<Rightarrow> bytes \<Rightarrow> bytes \<Rightarrow> exn + bytes" where
  "encrypt_aes A data aes_key iv =
     (case Cipher_check aes_key iv of
        Some e \<Rightarrow> Inl e
      | None \<Rightarrow>
          (case encode_data data of
             None \<Rightarrow> Inl UnicodeEncodeError
           | Some raw \<Rightarrow>
               (case cbc_encryptor A aes_key iv (pad raw) of
                  Inl e \<Rightarrow> Inl e
                | Inr ciphertext \<Rightarrow> Inr (iv @ ciphertext))))"

definition decrypt_aes :: "blockcipher \<Rightarrow> bytes \<Rightarrow> bytes \<Rightarrow> exn + pystr" where
  "decrypt_aes A encrypted_data aes_key =
     (let iv = take 16 encrypted_data;
          ciphertext = drop 16 encrypted_data
      in case Cipher_check aes_key iv of
           Some e \<Rightarrow> Inl e
         | None \<Rightarrow>
             (case cbc_decryptor A aes_key iv ciphertext of
                Inl e \<Rightarrow> Inl e
              | Inr padded_plaintext \<Rightarrow>
                  (case unpad padded_plaintext of
                     Inl e \<Rightarrow> Inl e
                   | Inr plaintext \<Rightarrow>
                       (case utf8_decode plaintext of
                          None \<Rightarrow> Inl UnicodeDecodeError
                        | Some s \<Rightarrow> Inr s))))"

text \<open>
  A block cipher to evaluate concrete records with: XOR with the first 16 key bytes. It
  satisfies \<open>aes_ok\<close>; it stands in for AES in witnesses and counterexamples only, and
  each of them is an instance of a statement proved for every cipher.
\<close>

definition xor_cipher :: blockcipher where
  "xor_cipher =
     \<lparr> block_encrypt = (\<lambda>k b. xor_block b (take 16 k)),
       block_decrypt = (\<lambda>k b. xor_block b (take 16 k)) \<rparr>"

text \<open>
  PKCS#7 padding as the specification words it: the last byte is a pad length between 1
  and 16, and that many trailing bytes all equal it. The code has no such function; the
  predicate is used to state C2 only.
\<close>

definition pkcs7_wellformed :: "bytes \<Rightarrow> bool" where
  "pkcs7_wellformed data \<longleftrightarrow>
     data \<noteq> [] \<and> 1 \<le> unat (last data) \<and> unat (last data) \<le> 16 \<and>
     unat (last data) \<le> length data \<and>
     drop (length data - unat (last data)) data = replicate (unat (last data)) (last data)"


text \<open>A key and an IV for the concrete records below.\<close>

definition demo_key :: bytes where
  "demo_key = replicate 32 3"

definition demo_iv :: bytes where
  "demo_iv = replicate 16 5"


section \<open>Flow controller: properties\<close>

lemma update_rtt_ints [simp]:
  "cwnd (update_rtt F r s) = cwnd s"
  "ssthresh (update_rtt F r s) = ssthresh s"
  "in_slow_start (update_rtt F r s) = in_slow_start s"
  "max_window_size (update_rtt F r s) = max_window_size s"
  "min_window_size (update_rtt F r s) = min_window_size s"
  "packets_in_flight (update_rtt F r s) = packets_in_flight s"
  by (simp_all add: update_rtt_def Let_def)

lemma update_throughput_ints [simp]:
  "cwnd (snd (update_throughput F t s)) = cwnd s"
  "ssthresh (snd (update_throughput F t s)) = ssthresh s"
  "in_slow_start (snd (update_throughput F t s)) = in_slow_start s"
  "max_window_size (snd (update_throughput F t s)) = max_window_size s"
  "min_window_size (snd (update_throughput F t s)) = min_window_size s"
  "packets_in_flight (snd (update_throughput F t s)) = packets_in_flight s"
  by (simp_all add: update_throughput_def Let_def split: option.split)

lemma update_throughput_exn:
  "fst (update_throughput F t s) = None \<or> fst (update_throughput F t s) = Some OverflowError"
  by (simp add: update_throughput_def Let_def split: option.split)

lemma on_ack_received_consts [simp]:
  "max_window_size (snd (on_ack_received F n r t s)) = max_window_size s"
  "min_window_size (snd (on_ack_received F n r t s)) = min_window_size s"
  "ssthresh (snd (on_ack_received F n r t s)) = ssthresh s"
  "packets_in_flight (snd (on_ack_received F n r t s)) = packets_in_flight s - 1"
  by (simp_all add: on_ack_received_def Let_def)

lemma on_ack_received_cwnd:
  "cwnd (snd (on_ack_received F n r t s)) =
     (if in_slow_start s then min (cwnd s + n) (max_window_size s)
      else if cwnd s = 0 then 0
      else min (cwnd s + max 1 (n * n div cwnd s)) (max_window_size s))"
  by (simp add: on_ack_received_def Let_def)

lemma on_ack_received_slow_start:
  "in_slow_start (snd (on_ack_received F n r t s)) =
     (in_slow_start s \<and> \<not> ssthresh s \<le> cwnd s + n)"
  by (simp add: on_ack_received_def Let_def)

lemma on_ack_received_exn:
  "fst (on_ack_received F n r t s) = Some ZeroDivisionError \<longleftrightarrow>
     \<not> in_slow_start s \<and> cwnd s = 0"
  using update_throughput_exn [of F t]
  by (auto simp: on_ack_received_def Let_def) (metis exn.distinct option.inject option.distinct(1))+


lemma fc_run_Nil [simp]: "fc_run F s [] = s"
  by (simp add: fc_run_def)

lemma fc_run_Cons [simp]: "fc_run F s (c # cs) = fc_run F (fc_step F s c) cs"
  by (simp add: fc_run_def)

















lemmas fc_eval =
  fc_inv_def fc_run_def on_ack_received_def on_packet_sent_def on_packet_loss_def
  on_timeout_def update_rtt_def update_throughput_def FlowController_init_def
  exact_floats_def deque_append_def n_sent_def n_acked_def Let_def



text \<open>
  C8, amended. For every call \<open>on_ack_received(n, rtt)\<close> on a controller whose
  \<open>max_window_size\<close> is 1048576: in slow start \<open>cwnd\<close> becomes
  \<open>min(cwnd + n, 1048576)\<close> and slow start is left exactly when \<open>cwnd + n \<ge> ssthresh\<close>;
  in congestion avoidance with \<open>cwnd \<noteq> 0\<close>, \<open>cwnd\<close> becomes
  \<open>min(cwnd + max(1, n\<^sup>2 // cwnd), 1048576)\<close>; in congestion avoidance with \<open>cwnd = 0\<close>
  the call raises \<open>ZeroDivisionError\<close> and \<open>cwnd\<close> stays 0. The window is as stated
  also when the throughput update that follows raises \<open>OverflowError\<close>.
\<close>

theorem on_ack_received_window:
  assumes "max_window_size s = 1048576"
  shows "if in_slow_start s then
           cwnd (snd (on_ack_received F n rtt now s)) = min (cwnd s + n) 1048576 \<and>
           in_slow_start (snd (on_ack_received F n rtt now s)) = (\<not> cwnd s + n \<ge> ssthresh s) \<and>
           fst (on_ack_received F n rtt now s) \<noteq> Some ZeroDivisionError
         else if cwnd s = 0 then
           fst (on_ack_received F n rtt now s) = Some ZeroDivisionError \<and>
           cwnd (snd (on_ack_received F n rtt now s)) = 0 \<and>
           \<not> in_slow_start (snd (on_ack_received F n rtt now s))
         else
           cwnd (snd (on_ack_received F n rtt now s)) =
             min (cwnd s + max 1 (n * n div cwnd s)) 1048576 \<and>
           \<not> in_slow_start (snd (on_ack_received F n rtt now s)) \<and>
           fst (on_ack_received F n rtt now s) \<noteq> Some ZeroDivisionError"
  using assms
  by (simp add: on_ack_received_cwnd on_ack_received_slow_start on_ack_received_exn)

text \<open>
  C8, as stated, at a concrete input. \<open>FlowController(1)\<close> has \<open>ssthresh = 0\<close>;
  \<open>on_ack_received(-4096, 0.5)\<close> gives \<open>cwnd = 0\<close> and leaves slow start
  (\<open>0 \<ge> 0\<close>); the next \<open>on_ack_received(1024, 1.0)\<close> is in congestion avoidance,
  raises \<open>ZeroDivisionError\<close> at \<open>n\<^sup>2 // cwnd\<close> and leaves \<open>cwnd = 0\<close>: the window
  does not grow by \<open>max(1, n\<^sup>2 // cwnd)\<close>.
\<close>

theorem on_ack_received_counterexample:
  "cwnd (snd (on_ack_received exact_floats (- 4096) (1 / 2) 0
            (FlowController_init exact_floats 1 0))) = 0
   \<and> \<not> in_slow_start (snd (on_ack_received exact_floats (- 4096) (1 / 2) 0
            (FlowController_init exact_floats 1 0)))
   \<and> fst (on_ack_received exact_floats 1024 1 0
            (snd (on_ack_received exact_floats (- 4096) (1 / 2) 0
               (FlowController_init exact_floats 1 0)))) = Some ZeroDivisionError
   \<and> cwnd (snd (on_ack_received exact_floats 1024 1 0
            (snd (on_ack_received exact_floats (- 4096) (1 / 2) 0
               (FlowController_init exact_floats 1 0))))) = 0"
  by (simp add: fc_eval)

theorem on_ack_received_window_witness:
  "max_window_size (FlowController_init exact_floats 65536 0) = 1048576
   \<and> cwnd (snd (on_ack_received exact_floats 1024 (1 / 20) 0
             (FlowController_init exact_floats 65536 0))) = 5120
   \<and> in_slow_start (snd (on_ack_received exact_floats 1024 (1 / 20) 0
             (FlowController_init exact_floats 65536 0)))
   \<and> cwnd (snd (on_ack_received exact_floats 70000 (1 / 20) 0
             (on_packet_loss (FlowController_init exact_floats 65536 0)))) = 1048576"
  using on_ack_received_window
          [of "FlowController_init exact_floats 65536 0" exact_floats 1024 "1 / 20" 0]
        on_ack_received_window
          [of "on_packet_loss (FlowController_init exact_floats 65536 0)" exact_floats 70000
              "1 / 20" 0]
  by (simp add: FlowController_init_def on_packet_loss_def Let_def)

section \<open>Encryption: properties\<close>

lemma unat_byte_of_nat [simp]: "n < 256 \<Longrightarrow> unat (byte_of_nat n) = n"
  unfolding byte_of_nat_def by (simp add: unat_of_nat)

lemma unat_cont_byte [simp]: "unat (cont_byte x) = 128 + x mod 64"
  by (simp add: cont_byte_def)

lemma is_cont_cont_byte [simp]: "is_cont (cont_byte x)"
  by (simp add: is_cont_def)

lemma decode2:
  "194 \<le> n0 \<Longrightarrow> n0 < 224 \<Longrightarrow>
   utf8_decode (byte_of_nat n0 # cont_byte x1 # rest) =
     map_option ((#) ((n0 - 192) * 64 + x1 mod 64)) (utf8_decode rest)"
  by simp

lemma decode3:
  "224 \<le> n0 \<Longrightarrow> n0 < 240 \<Longrightarrow>
   utf8_decode (byte_of_nat n0 # cont_byte x1 # cont_byte x2 # rest) =
     (let c = (n0 - 224) * 4096 + (x1 mod 64) * 64 + x2 mod 64
      in if c < 2048 \<or> (55296 \<le> c \<and> c \<le> 57343) then None
         else map_option ((#) c) (utf8_decode rest))"
  by simp

lemma decode4:
  "240 \<le> n0 \<Longrightarrow> n0 < 245 \<Longrightarrow>
   utf8_decode (byte_of_nat n0 # cont_byte x1 # cont_byte x2 # cont_byte x3 # rest) =
     (let c = (n0 - 240) * 262144 + (x1 mod 64) * 4096 + (x2 mod 64) * 64 + x3 mod 64
      in if c < 65536 \<or> 1114112 \<le> c then None
         else map_option ((#) c) (utf8_decode rest))"
  by simp


lemma split64: "(c::nat) div 64 * 64 + c mod 64 = c"
  by simp

lemma split4096: "(c::nat) div 4096 * 4096 + (c div 64 mod 64) * 64 + c mod 64 = c"
proof -
  have "c div 4096 = c div 64 div 64" by (simp add: div_mult2_eq)
  then have "c div 4096 * 64 + c div 64 mod 64 = c div 64" by simp
  then have "(c div 4096 * 64 + c div 64 mod 64) * 64 + c mod 64 = c" by simp
  then show ?thesis by (simp add: algebra_simps)
qed

lemma split262144:
  "(c::nat) div 262144 * 262144 + (c div 4096 mod 64) * 4096 + (c div 64 mod 64) * 64 + c mod 64 = c"
proof -
  have "c div 262144 = c div 4096 div 64" by (simp add: div_mult2_eq)
  then have "c div 262144 * 64 + c div 4096 mod 64 = c div 4096" by simp
  then have "(c div 262144 * 64 + c div 4096 mod 64) * 4096 = c div 4096 * 4096" by simp
  then have "c div 262144 * 262144 + (c div 4096 mod 64) * 4096 = c div 4096 * 4096"
    by (simp add: algebra_simps)
  with split4096 [of c] show ?thesis by simp
qed

lemma utf8_decode_encode_cp:
  assumes "utf8_encode_cp c = Some bs"
  shows "utf8_decode (bs @ rest) = map_option ((#) c) (utf8_decode rest)"
proof -
  consider "c < 128" | "128 \<le> c" "c < 2048" | "2048 \<le> c" "c < 65536" | "65536 \<le> c"
    by linarith
  then show ?thesis
  proof cases
    case 1
    with assms have "bs = [byte_of_nat c]" by (simp add: utf8_encode_cp_def)
    with 1 show ?thesis by simp
  next
    case 2
    with assms have bs: "bs = [byte_of_nat (192 + c div 64), cont_byte c]"
      by (simp add: utf8_encode_cp_def)
    from 2 have "194 \<le> 192 + c div 64" "192 + c div 64 < 224" by simp_all
    from decode2 [OF this, of c rest] bs show ?thesis by (simp add: split64)
  next
    case 3
    with assms have ns: "\<not> (55296 \<le> c \<and> c \<le> 57343)"
      and bs: "bs = [byte_of_nat (224 + c div 4096), cont_byte (c div 64), cont_byte c]"
      by (auto simp: utf8_encode_cp_def split: if_splits)
    from 3 have "224 \<le> 224 + c div 4096" "224 + c div 4096 < 240" by simp_all
    from decode3 [OF this, of "c div 64" c rest] bs ns 3 show ?thesis
      by (simp add: split4096)
  next
    case 4
    with assms have lt: "c < 1114112"
      and bs: "bs = [byte_of_nat (240 + c div 262144), cont_byte (c div 4096),
                     cont_byte (c div 64), cont_byte c]"
      by (auto simp: utf8_encode_cp_def split: if_splits)
    from lt have "240 \<le> 240 + c div 262144" "240 + c div 262144 < 245" by simp_all
    from decode4 [OF this, of "c div 4096" "c div 64" c rest] bs lt 4 show ?thesis
      by (simp add: split262144)
  qed
qed

lemma utf8_decode_encode: "utf8_encode s = Some bs \<Longrightarrow> utf8_decode bs = Some s"
proof (induction s arbitrary: bs)
  case Nil
  then show ?case by simp
next
  case (Cons c cs)
  then show ?case
    by (auto simp: utf8_decode_encode_cp split: option.splits)
qed

lemma length_xor_block [simp]: "length (xor_block a b) = min (length a) (length b)"
  by (simp add: xor_block_def)

lemma xor_block_cancel: "length a = length b \<Longrightarrow> xor_block (xor_block a b) b = a"
  unfolding xor_block_def
  by (induction a b rule: list_induct2) (simp_all add: xor.assoc)

lemma blocks_aux_append:
  "length b = 16 \<Longrightarrow> blocks_aux (Suc n) (b @ r) = b # blocks_aux n r"
  by simp

lemma blocks16_append: "length b = 16 \<Longrightarrow> blocks16 (b @ r) = b # blocks16 r"
proof -
  assume l: "length b = 16"
  have "(16 + length r) div 16 = Suc (length r div 16)" by simp
  with l show ?thesis by (simp add: blocks16_def)
qed

lemma blocks16_concat:
  "\<forall>b\<in>set bs. length b = 16 \<Longrightarrow> blocks16 (concat bs) = bs"
proof (induction bs)
  case Nil
  then show ?case by (simp add: blocks16_def)
next
  case (Cons b bs)
  then show ?case by (simp add: blocks16_append)
qed

lemma blocks_aux_length:
  "16 * n \<le> length xs \<Longrightarrow> \<forall>b\<in>set (blocks_aux n xs). length b = 16"
proof (induction n arbitrary: xs)
  case 0
  then show ?case by simp
next
  case (Suc n)
  then have "16 * n \<le> length (drop 16 xs)" by simp
  from Suc.IH [OF this] Suc.prems show ?case by simp
qed

lemma blocks16_length: "\<forall>b\<in>set (blocks16 xs). length b = 16"
proof -
  have "16 * (length xs div 16) \<le> length xs" by simp
  then show ?thesis unfolding blocks16_def by (rule blocks_aux_length)
qed

lemma concat_blocks_aux: "length xs = 16 * n \<Longrightarrow> concat (blocks_aux n xs) = xs"
proof (induction n arbitrary: xs)
  case 0
  then show ?case by simp
next
  case (Suc n)
  then have "concat (blocks_aux n (drop 16 xs)) = drop 16 xs" by simp
  then show ?case by simp
qed

lemma concat_blocks16: "length xs mod 16 = 0 \<Longrightarrow> concat (blocks16 xs) = xs"
  unfolding blocks16_def by (rule concat_blocks_aux) auto

lemma length_concat_16:
  "\<forall>b\<in>set bs. length b = 16 \<Longrightarrow> length (concat bs) = 16 * length bs"
  by (induction bs) simp_all

lemma length_blocks16 [simp]: "length (blocks16 xs) = length xs div 16"
proof -
  have "length (blocks_aux n ys) = n" for n ys
    by (induction n arbitrary: ys) simp_all
  then show ?thesis by (simp add: blocks16_def)
qed

lemma aes_ok_enc_length:
  "aes_ok A \<Longrightarrow> aes_key_size k \<Longrightarrow> length b = 16 \<Longrightarrow> length (block_encrypt A k b) = 16"
  unfolding aes_ok_def by blast

lemma aes_ok_dec_length:
  "aes_ok A \<Longrightarrow> aes_key_size k \<Longrightarrow> length b = 16 \<Longrightarrow> length (block_decrypt A k b) = 16"
  unfolding aes_ok_def by blast

lemma aes_ok_dec_enc:
  "aes_ok A \<Longrightarrow> aes_key_size k \<Longrightarrow> length b = 16 \<Longrightarrow>
   block_decrypt A k (block_encrypt A k b) = b"
  unfolding aes_ok_def by blast

lemma length_cbc_encrypt_blocks [simp]:
  "length (cbc_encrypt_blocks A k prev ps) = length ps"
  by (induction ps arbitrary: prev) (simp_all add: Let_def)

lemma length_cbc_decrypt_blocks [simp]:
  "length (cbc_decrypt_blocks A k prev cs) = length cs"
  by (induction cs arbitrary: prev) simp_all

lemma cbc_encrypt_blocks_length:
  "aes_ok A \<Longrightarrow> aes_key_size k \<Longrightarrow> length prev = 16 \<Longrightarrow> \<forall>p\<in>set ps. length p = 16 \<Longrightarrow>
   \<forall>c\<in>set (cbc_encrypt_blocks A k prev ps). length c = 16"
proof (induction ps arbitrary: prev)
  case Nil
  then show ?case by simp
next
  case (Cons p ps)
  let ?c = "block_encrypt A k (xor_block p prev)"
  from Cons.prems have "length (xor_block p prev) = 16" by simp
  with Cons.prems(1,2) have lc: "length ?c = 16" by (rule aes_ok_enc_length)
  from Cons.IH [OF Cons.prems(1,2) lc] Cons.prems(4) lc show ?case
    by (simp add: Let_def)
qed

lemma cbc_decrypt_blocks_length:
  "aes_ok A \<Longrightarrow> aes_key_size k \<Longrightarrow> length prev = 16 \<Longrightarrow> \<forall>c\<in>set cs. length c = 16 \<Longrightarrow>
   \<forall>p\<in>set (cbc_decrypt_blocks A k prev cs). length p = 16"
proof (induction cs arbitrary: prev)
  case Nil
  then show ?case by simp
next
  case (Cons c cs)
  from Cons.prems have lc: "length c = 16" by simp
  with Cons.prems(1,2) have "length (block_decrypt A k c) = 16" by (rule aes_ok_dec_length)
  with Cons.prems(3) have "length (xor_block (block_decrypt A k c) prev) = 16" by simp
  with Cons.IH [OF Cons.prems(1,2) lc] Cons.prems(4) show ?case by simp
qed

lemma cbc_decrypt_encrypt_blocks:
  "aes_ok A \<Longrightarrow> aes_key_size k \<Longrightarrow> length prev = 16 \<Longrightarrow> \<forall>p\<in>set ps. length p = 16 \<Longrightarrow>
   cbc_decrypt_blocks A k prev (cbc_encrypt_blocks A k prev ps) = ps"
proof (induction ps arbitrary: prev)
  case Nil
  then show ?case by simp
next
  case (Cons p ps)
  let ?c = "block_encrypt A k (xor_block p prev)"
  from Cons.prems have lx: "length (xor_block p prev) = 16" by simp
  from Cons.prems(1,2) lx have lc: "length ?c = 16" by (rule aes_ok_enc_length)
  from Cons.prems(1,2) lx have dc: "block_decrypt A k ?c = xor_block p prev"
    by (rule aes_ok_dec_enc)
  from Cons.prems have "xor_block (xor_block p prev) prev = p"
    by (simp add: xor_block_cancel)
  moreover from Cons.IH [OF Cons.prems(1,2) lc] Cons.prems(4)
  have "cbc_decrypt_blocks A k ?c (cbc_encrypt_blocks A k ?c ps) = ps" by simp
  ultimately show ?case by (simp add: Let_def dc)
qed

lemma pad_length: "length (pad d) mod 16 = 0"
proof -
  define q where "q = length d div 16"
  define m where "m = length d mod 16"
  have e: "length d = 16 * q + m" by (simp add: q_def m_def)
  have lt: "m < 16" by (simp add: m_def)
  have "length (pad d) = length d + (16 - m)"
    by (simp add: pad_def Let_def m_def)
  also have "\<dots> = 16 * (q + 1)" using e lt by arith
  finally show ?thesis by simp
qed

lemma pad_form:
  "\<exists>n. 1 \<le> n \<and> n \<le> 16 \<and> pad d = d @ replicate n (byte_of_nat n)"
proof -
  have "length d mod 16 < 16" by simp
  then have "1 \<le> 16 - length d mod 16" "16 - length d mod 16 \<le> 16" by simp_all
  then show ?thesis unfolding pad_def Let_def by blast
qed

lemma unpad_pad: "unpad (pad d) = Inr d"
proof -
  define n where "n = 16 - length d mod 16"
  have "length d mod 16 < 16" by simp
  then have n: "1 \<le> n" "n \<le> 16" by (simp_all add: n_def)
  have p: "pad d = d @ replicate n (byte_of_nat n)"
    by (simp add: pad_def Let_def n_def)
  have "last (pad d) = byte_of_nat n" using n by (simp add: p)
  then have "unat (last (pad d)) = n" using n by simp
  moreover have "pad d \<noteq> []" using n by (simp add: p)
  moreover have "take (length (pad d) - n) (pad d) = d" by (simp add: p)
  ultimately show ?thesis using n by (simp add: unpad_def Let_def)
qed

lemma xor_cipher_ok: "aes_ok xor_cipher"
proof -
  have "xor_block (xor_block b (take 16 k)) (take 16 k) = b \<and>
        length (xor_block b (take 16 k)) = 16"
    if "aes_key_size k" "length b = 16" for k b
  proof -
    from that have "length b = length (take 16 k)" by (auto simp: aes_key_size_def)
    then show ?thesis using that(2) by (simp add: xor_block_cancel)
  qed
  then show ?thesis unfolding aes_ok_def xor_cipher_def by simp
qed

lemma mult16: "(n::nat) mod 16 = 0 \<Longrightarrow> 16 * (n div 16) = n"
  by (simp add: mod_eq_0_iff_dvd)

lemma key32: "length k = 32 \<Longrightarrow> aes_key_size k"
  by (simp add: aes_key_size_def)

lemma encrypt_aes_result:
  assumes "length k = 32" "length iv = 16" "encode_data d = Some raw"
  shows "encrypt_aes A d k iv =
           Inr (iv @ concat (cbc_encrypt_blocks A k iv (blocks16 (pad raw))))"
  using assms
  by (simp add: encrypt_aes_def Cipher_check_def key32 cbc_encryptor_def pad_length)

lemma decrypt_aes_result:
  assumes "length k = 32" "length r \<ge> 16" "(length r - 16) mod 16 = 0"
  shows "decrypt_aes A r k =
           (case unpad (concat (cbc_decrypt_blocks A k (take 16 r) (blocks16 (drop 16 r)))) of
              Inl e \<Rightarrow> Inl e
            | Inr plaintext \<Rightarrow>
                (case utf8_decode plaintext of
                   None \<Rightarrow> Inl UnicodeDecodeError
                 | Some s \<Rightarrow> Inr s))"
  using assms
  by (simp add: decrypt_aes_def Cipher_check_def key32 cbc_decryptor_def Let_def)

lemma cbc_roundtrip:
  assumes "aes_ok A" "length k = 32" "length iv = 16" "length P mod 16 = 0"
  shows "concat (cbc_decrypt_blocks A k iv
           (blocks16 (concat (cbc_encrypt_blocks A k iv (blocks16 P))))) = P"
proof -
  have ks: "aes_key_size k" using assms(2) by (rule key32)
  have bl: "\<forall>b\<in>set (blocks16 P). length b = 16" by (rule blocks16_length)
  have cl: "\<forall>c\<in>set (cbc_encrypt_blocks A k iv (blocks16 P)). length c = 16"
    using assms(1) ks assms(3) bl by (rule cbc_encrypt_blocks_length)
  have "blocks16 (concat (cbc_encrypt_blocks A k iv (blocks16 P))) =
          cbc_encrypt_blocks A k iv (blocks16 P)"
    using cl by (rule blocks16_concat)
  moreover have "cbc_decrypt_blocks A k iv (cbc_encrypt_blocks A k iv (blocks16 P)) = blocks16 P"
    using assms(1) ks assms(3) bl by (rule cbc_decrypt_encrypt_blocks)
  ultimately show ?thesis using assms(4) by (simp add: concat_blocks16)
qed

lemma length_encrypted:
  assumes "aes_ok A" "length k = 32" "length iv = 16" "length P mod 16 = 0"
  shows "length (concat (cbc_encrypt_blocks A k iv (blocks16 P))) = length P"
proof -
  have ks: "aes_key_size k" using assms(2) by (rule key32)
  have bl: "\<forall>b\<in>set (blocks16 P). length b = 16" by (rule blocks16_length)
  have cl: "\<forall>c\<in>set (cbc_encrypt_blocks A k iv (blocks16 P)). length c = 16"
    using assms(1) ks assms(3) bl by (rule cbc_encrypt_blocks_length)
  have "length (concat (cbc_encrypt_blocks A k iv (blocks16 P))) = 16 * (length P div 16)"
    using length_concat_16 [OF cl] by simp
  then show ?thesis using mult16 [OF assms(4)] by simp
qed

lemma length_decrypted:
  assumes "aes_ok A" "length k = 32" "length iv = 16" "length C mod 16 = 0"
  shows "length (concat (cbc_decrypt_blocks A k iv (blocks16 C))) = length C"
proof -
  have ks: "aes_key_size k" using assms(2) by (rule key32)
  have bl: "\<forall>b\<in>set (blocks16 C). length b = 16" by (rule blocks16_length)
  have cl: "\<forall>c\<in>set (cbc_decrypt_blocks A k iv (blocks16 C)). length c = 16"
    using assms(1) ks assms(3) bl by (rule cbc_decrypt_blocks_length)
  have "length (concat (cbc_decrypt_blocks A k iv (blocks16 C))) = 16 * (length C div 16)"
    using length_concat_16 [OF cl] by simp
  then show ?thesis using mult16 [OF assms(4)] by simp
qed

lemma roundtrip_core:
  assumes "aes_ok A" "length k = 32" "length iv = 16" "encode_data d = Some raw"
  shows "case encrypt_aes A d k iv of
           Inl e \<Rightarrow> False
         | Inr r \<Rightarrow>
             decrypt_aes A r k =
               (case utf8_decode raw of None \<Rightarrow> Inl UnicodeDecodeError | Some s \<Rightarrow> Inr s) \<and>
             (\<forall>s. d = Str s \<longrightarrow> decrypt_aes A r k = Inr s) \<and>
             length r = length (pad raw) + 16 \<and>
             pad raw = raw @ replicate (16 - length raw mod 16)
                              (byte_of_nat (16 - length raw mod 16)) \<and>
             1 \<le> 16 - length raw mod 16 \<and> 16 - length raw mod 16 \<le> 16 \<and>
             length (pad raw) mod 16 = 0"
proof -
  let ?ct = "concat (cbc_encrypt_blocks A k iv (blocks16 (pad raw)))"
  have enc: "encrypt_aes A d k iv = Inr (iv @ ?ct)"
    using assms(2,3,4) by (rule encrypt_aes_result)
  have pl: "length (pad raw) mod 16 = 0" by (rule pad_length)
  have lct: "length ?ct = length (pad raw)"
    using assms(1,2,3) pl by (rule length_encrypted)
  have rt: "concat (cbc_decrypt_blocks A k iv (blocks16 ?ct)) = pad raw"
    using assms(1,2,3) pl by (rule cbc_roundtrip)
  have dec: "decrypt_aes A (iv @ ?ct) k =
               (case utf8_decode raw of None \<Rightarrow> Inl UnicodeDecodeError | Some s \<Rightarrow> Inr s)"
    using decrypt_aes_result [of k "iv @ ?ct" A] assms(2,3) lct pl rt
    by (simp add: unpad_pad)
  have str: "decrypt_aes A (iv @ ?ct) k = Inr s" if "d = Str s" for s
  proof -
    from that assms(4) have "utf8_encode s = Some raw" by (simp add: encode_data_def)
    then have "utf8_decode raw = Some s" by (rule utf8_decode_encode)
    with dec show ?thesis by simp
  qed
  have "length raw mod 16 < 16" by simp
  then have n: "1 \<le> 16 - length raw mod 16" "16 - length raw mod 16 \<le> 16" by simp_all
  have pf: "pad raw = raw @ replicate (16 - length raw mod 16)
                              (byte_of_nat (16 - length raw mod 16))"
    by (simp add: pad_def Let_def)
  show ?thesis using enc dec str lct assms(3) pl pf n by simp
qed

text \<open>
  What \<open>decrypt_aes\<close> computes on a record whose ciphertext part is a positive multiple
  of 16 bytes, for any block cipher: the result of \<open>_unpad\<close> and \<open>decode\<close> on the
  CBC-decrypted bytes.
\<close>

lemma decrypt_aes_wellformed:
  assumes "length k = 32" "16 < length r" "(length r - 16) mod 16 = 0"
  shows "case cbc_decryptor A k (take 16 r) (drop 16 r) of
           Inl e \<Rightarrow> False
         | Inr P \<Rightarrow>
             decrypt_aes A r k =
               (if P = [] then Inl IndexError
                else case utf8_decode
                       (if unat (last P) = 0 \<or> length P \<le> unat (last P) then []
                        else take (length P - unat (last P)) P) of
                  None \<Rightarrow> Inl UnicodeDecodeError
                | Some s \<Rightarrow> Inr s) \<and>
             (P \<noteq> [] \<and> unat (last P) = 0 \<longrightarrow> decrypt_aes A r k = Inr []) \<and>
             (aes_ok A \<longrightarrow> length P = length r - 16 \<and> P \<noteq> [])"
proof -
  let ?P = "concat (cbc_decrypt_blocks A k (take 16 r) (blocks16 (drop 16 r)))"
  have cd: "cbc_decryptor A k (take 16 r) (drop 16 r) = Inr ?P"
    using assms(3) by (simp add: cbc_decryptor_def)
  have liv: "length (take 16 r) = 16" using assms(2) by simp
  have lc: "length (drop 16 r) mod 16 = 0" using assms(3) by simp
  have lp: "length ?P = length r - 16 \<and> ?P \<noteq> []" if ok: "aes_ok A"
  proof -
    have l: "length ?P = length r - 16"
      using length_decrypted [OF ok assms(1) liv lc] by simp
    then have "0 < length ?P" using assms(2) by linarith
    then have "?P \<noteq> []" unfolding length_greater_0_conv .
    with l show ?thesis by simp
  qed
  have dr: "decrypt_aes A r k =
              (if ?P = [] then Inl IndexError
               else case utf8_decode
                      (if unat (last ?P) = 0 \<or> length ?P \<le> unat (last ?P) then []
                       else take (length ?P - unat (last ?P)) ?P) of
                 None \<Rightarrow> Inl UnicodeDecodeError
               | Some s \<Rightarrow> Inr s)"
    using decrypt_aes_result [of k r A] assms
    by (auto simp: unpad_def Let_def)
  then have "?P \<noteq> [] \<and> unat (last ?P) = 0 \<longrightarrow> decrypt_aes A r k = Inr []" by simp
  with cd lp dr show ?thesis by simp
qed

text \<open>
  C2, amended. For every key of 32 bytes and every input \<open>r\<close>, \<open>decrypt_aes\<close> raises
  instead of returning a value when \<open>r\<close> is shorter than 16 bytes (\<open>ValueError\<close>, the
  IV is too short), when the remaining ciphertext is empty (\<open>IndexError\<close> in
  \<open>_unpad\<close>) and when its length is not a multiple of 16 (\<open>ValueError\<close>). On every
  other input the padding is never a reason to fail: with a cipher that maps blocks to
  blocks, \<open>decrypt_aes\<close> returns a string or raises \<open>UnicodeDecodeError\<close> from
  \<open>plaintext.decode()\<close>. The exceptions are the library's and Python's own; the code
  defines no \<open>ProtocolError\<close>.
\<close>

theorem decrypt_aes_rejects:
  assumes "length k = 32"
  shows "(length r < 16 \<longrightarrow> decrypt_aes A r k = Inl ValueError) \<and>
         (length r = 16 \<longrightarrow> decrypt_aes A r k = Inl IndexError) \<and>
         (16 < length r \<and> (length r - 16) mod 16 \<noteq> 0 \<longrightarrow> decrypt_aes A r k = Inl ValueError) \<and>
         (aes_ok A \<and> 16 < length r \<and> (length r - 16) mod 16 = 0 \<longrightarrow>
            (case decrypt_aes A r k of Inl e \<Rightarrow> e = UnicodeDecodeError | Inr s \<Rightarrow> True))"
proof -
  have a: "length r < 16 \<longrightarrow> decrypt_aes A r k = Inl ValueError"
    using assms by (auto simp: decrypt_aes_def Cipher_check_def key32 Let_def)
  have b: "length r = 16 \<longrightarrow> decrypt_aes A r k = Inl IndexError"
    using assms
    by (auto simp: decrypt_aes_def Cipher_check_def key32 cbc_decryptor_def Let_def
                   blocks16_def unpad_def)
  have c: "16 < length r \<and> (length r - 16) mod 16 \<noteq> 0 \<longrightarrow> decrypt_aes A r k = Inl ValueError"
    using assms
    by (auto simp: decrypt_aes_def Cipher_check_def key32 cbc_decryptor_def Let_def)
  have d: "aes_ok A \<and> 16 < length r \<and> (length r - 16) mod 16 = 0 \<longrightarrow>
            (case decrypt_aes A r k of Inl e \<Rightarrow> e = UnicodeDecodeError | Inr s \<Rightarrow> True)"
  proof (intro impI, elim conjE)
    assume ok: "aes_ok A" and l: "16 < length r" and m: "(length r - 16) mod 16 = 0"
    show "case decrypt_aes A r k of Inl e \<Rightarrow> e = UnicodeDecodeError | Inr s \<Rightarrow> True"
      using decrypt_aes_wellformed [OF assms l m, of A] ok
      by (auto split: sum.splits option.splits if_splits)
  qed
  show ?thesis by (rule conjI [OF a conjI [OF b conjI [OF c d]]])
qed

text \<open>
  C10, amended. For every key of 32 bytes and every input \<open>r\<close> whose ciphertext part is
  a positive multiple of 16 bytes, with \<open>P\<close> the CBC-decrypted bytes and \<open>b\<close> the value
  of the last byte of \<open>P\<close>: \<open>decrypt_aes\<close> returns the decoding of \<open>P[:-b]\<close>, which
  is \<open>P\<close> without its last \<open>b\<close> bytes when \<open>1 \<le> b < len(P)\<close> and the empty string
  when \<open>b = 0\<close> or \<open>b \<ge> len(P)\<close>; the stripped bytes are never compared with \<open>b\<close>.
  (It raises \<open>UnicodeDecodeError\<close> when what is left is not UTF-8. With a cipher that
  maps blocks to blocks, as AES does, \<open>P\<close> is as long as the ciphertext.)
\<close>

theorem decrypt_aes_strips:
  assumes "length k = 32" "16 < length r" "(length r - 16) mod 16 = 0"
  shows "case cbc_decryptor A k (take 16 r) (drop 16 r) of
           Inl e \<Rightarrow> False
         | Inr P \<Rightarrow>
             decrypt_aes A r k =
               (if P = [] then Inl IndexError
                else case utf8_decode
                       (if unat (last P) = 0 \<or> length P \<le> unat (last P) then []
                        else take (length P - unat (last P)) P) of
                  None \<Rightarrow> Inl UnicodeDecodeError
                | Some s \<Rightarrow> Inr s) \<and>
             (P \<noteq> [] \<and> unat (last P) = 0 \<longrightarrow> decrypt_aes A r k = Inr []) \<and>
             (aes_ok A \<longrightarrow> length P = length r - 16 \<and> P \<noteq> [])"
  using assms by (rule decrypt_aes_wellformed)

lemma xor_block_replicate:
  "length xs = n \<Longrightarrow> xor_block xs (replicate n y) = map (\<lambda>x. x XOR y) xs"
  unfolding xor_block_def by (induction xs arbitrary: n) auto

lemma blocks16_one: "length c = 16 \<Longrightarrow> blocks16 c = [c]"
  using blocks16_append [of c "[]"] by (simp add: blocks16_def)

lemma demo_block_decrypt:
  "length c = 16 \<Longrightarrow>
   cbc_decryptor xor_cipher demo_key demo_iv c = Inr (map (\<lambda>x. (x XOR 3) XOR 5) c)"
  by (simp add: cbc_decryptor_def blocks16_one xor_cipher_def demo_key_def demo_iv_def
        xor_block_replicate)

lemma demo_decrypt_aes:
  "length c = 16 \<Longrightarrow>
   decrypt_aes xor_cipher (demo_iv @ c) demo_key =
     (case unpad (map (\<lambda>x. (x XOR 3) XOR 5) c) of
        Inl e \<Rightarrow> Inl e
      | Inr plaintext \<Rightarrow>
          (case utf8_decode plaintext of None \<Rightarrow> Inl UnicodeDecodeError | Some s \<Rightarrow> Inr s))"
  using demo_block_decrypt [of c]
  by (simp add: decrypt_aes_def Cipher_check_def aes_key_size_def Let_def demo_key_def
        demo_iv_def)

lemma demo_lengths: "length demo_key = 32" "length demo_iv = 16"
  by (simp_all add: demo_key_def demo_iv_def)

text \<open>
  C2, as stated, at a concrete input. The record decrypts to fourteen bytes \<open>A\<close>
  followed by the bytes 5 and 2: the pad length is 2 and the byte before it is not 2, so
  the padding is malformed. \<open>_unpad\<close> drops the last two bytes without looking at them
  and \<open>decrypt_aes\<close> returns the fourteen characters.
\<close>

theorem decrypt_aes_padding_counterexample:
  "cbc_decryptor xor_cipher demo_key demo_iv
     [71, 71, 71, 71, 71, 71, 71, 71, 71, 71, 71, 71, 71, 71, 3, 4]
     = Inr [65, 65, 65, 65, 65, 65, 65, 65, 65, 65, 65, 65, 65, 65, 5, 2]
   \<and> \<not> pkcs7_wellformed [65, 65, 65, 65, 65, 65, 65, 65, 65, 65, 65, 65, 65, 65, 5, 2]
   \<and> decrypt_aes xor_cipher
       (demo_iv @ [71, 71, 71, 71, 71, 71, 71, 71, 71, 71, 71, 71, 71, 71, 3, 4]) demo_key
     = Inr [65, 65, 65, 65, 65, 65, 65, 65, 65, 65, 65, 65, 65, 65]"
proof -
  have "replicate 2 (2::byte) = [2, 2]" by (simp add: numeral_2_eq_2)
  then show ?thesis
    by (simp add: demo_decrypt_aes demo_block_decrypt unpad_def pkcs7_wellformed_def)
qed

theorem decrypt_aes_rejects_witness:
  "length demo_key = 32
   \<and> decrypt_aes xor_cipher [1, 2, 3] demo_key = Inl ValueError
   \<and> decrypt_aes xor_cipher demo_iv demo_key = Inl IndexError
   \<and> decrypt_aes xor_cipher (demo_iv @ [1]) demo_key = Inl ValueError
   \<and> aes_ok xor_cipher
   \<and> (case decrypt_aes xor_cipher (demo_iv @ replicate 16 1) demo_key of
         Inl e \<Rightarrow> e = UnicodeDecodeError
       | Inr s \<Rightarrow> True)"
  using decrypt_aes_rejects [OF demo_lengths(1), of "[1, 2, 3]" xor_cipher]
        decrypt_aes_rejects [OF demo_lengths(1), of demo_iv xor_cipher]
        decrypt_aes_rejects [OF demo_lengths(1), of "demo_iv @ [1]" xor_cipher]
        decrypt_aes_rejects [OF demo_lengths(1), of "demo_iv @ replicate 16 1" xor_cipher]
        xor_cipher_ok
  by (simp add: demo_lengths)

text \<open>
  C10, as stated, at a concrete input. The record decrypts to one block of fifteen bytes
  \<open>A\<close> and a space: the last byte is 32, the block has 16 bytes, and \<open>P[:-32]\<close> is
  empty. Sixteen bytes are stripped, not 32.
\<close>

theorem decrypt_aes_strips_counterexample:
  "cbc_decryptor xor_cipher demo_key demo_iv
     [71, 71, 71, 71, 71, 71, 71, 71, 71, 71, 71, 71, 71, 71, 71, 38]
     = Inr [65, 65, 65, 65, 65, 65, 65, 65, 65, 65, 65, 65, 65, 65, 65, 32]
   \<and> unat (last [65, 65, 65, 65, 65, 65, 65, 65, 65, 65, 65, 65, 65, 65, 65, 32 :: byte]) = 32
   \<and> decrypt_aes xor_cipher
       (demo_iv @ [71, 71, 71, 71, 71, 71, 71, 71, 71, 71, 71, 71, 71, 71, 71, 38]) demo_key
     = Inr []"
  by (simp add: demo_decrypt_aes demo_block_decrypt unpad_def)

theorem decrypt_aes_strips_witness:
  "length demo_key = 32
   \<and> aes_ok xor_cipher
   \<and> cbc_decryptor xor_cipher demo_key demo_iv
       [71, 71, 71, 71, 71, 71, 71, 71, 71, 71, 71, 71, 71, 71, 3, 4]
     = Inr [65, 65, 65, 65, 65, 65, 65, 65, 65, 65, 65, 65, 65, 65, 5, 2]
   \<and> decrypt_aes xor_cipher
       (demo_iv @ [71, 71, 71, 71, 71, 71, 71, 71, 71, 71, 71, 71, 71, 71, 3, 4]) demo_key
     = Inr [65, 65, 65, 65, 65, 65, 65, 65, 65, 65, 65, 65, 65, 65]"
  using decrypt_aes_strips
    [OF demo_lengths(1),
     of "demo_iv @ [71, 71, 71, 71, 71, 71, 71, 71, 71, 71, 71, 71, 71, 71, 3, 4]" xor_cipher]
    xor_cipher_ok
  by (simp add: demo_lengths demo_block_decrypt)

text \<open>
  C7, amended. For every plaintext (a \<open>str\<close> or a byte string), every key of 32 bytes
  and every IV of 16 bytes: when the plaintext is a \<open>str\<close> that UTF-8 cannot encode,
  \<open>encrypt_aes\<close> raises \<open>UnicodeEncodeError\<close>; otherwise, with \<open>raw\<close> the bytes of the
  plaintext, \<open>encrypt_aes\<close> returns a record \<open>r\<close>; \<open>decrypt_aes(r, k)\<close> is the \<open>str\<close>
  itself when the plaintext was a \<open>str\<close>, the decoding of \<open>raw\<close> when that is valid
  UTF-8, and raises \<open>UnicodeDecodeError\<close> otherwise; \<open>r\<close> has \<open>len(p_padded) + 16\<close>
  bytes, where \<open>p_padded\<close> is \<open>raw\<close> followed by \<open>n\<close> bytes of value \<open>n\<close>,
  \<open>n = 16 - len(raw) % 16\<close> between 1 and 16 (a full block when \<open>raw\<close> is aligned).
\<close>

theorem decrypt_encrypt_roundtrip:
  assumes "aes_ok A" "length k = 32" "length iv = 16"
  shows "case encode_data d of
           None \<Rightarrow> encrypt_aes A d k iv = Inl UnicodeEncodeError
         | Some raw \<Rightarrow>
            (case encrypt_aes A d k iv of
               Inl e \<Rightarrow> False
             | Inr r \<Rightarrow>
                 decrypt_aes A r k =
                   (case utf8_decode raw of None \<Rightarrow> Inl UnicodeDecodeError | Some s \<Rightarrow> Inr s) \<and>
                 (\<forall>s. d = Str s \<longrightarrow> decrypt_aes A r k = Inr s) \<and>
                 length r = length (pad raw) + 16 \<and>
                 pad raw = raw @ replicate (16 - length raw mod 16)
                                  (byte_of_nat (16 - length raw mod 16)) \<and>
                 1 \<le> 16 - length raw mod 16 \<and> 16 - length raw mod 16 \<le> 16 \<and>
                 length (pad raw) mod 16 = 0)"
proof (cases "encode_data d")
  case None
  then show ?thesis
    using assms(2,3) by (simp add: encrypt_aes_def Cipher_check_def key32)
next
  case (Some raw)
  then show ?thesis using roundtrip_core [OF assms Some] by simp
qed

text \<open>
  C7, as stated, at a concrete input: the one-byte string with the byte 255 is encrypted,
  and decrypting the record raises \<open>UnicodeDecodeError\<close> in \<open>plaintext.decode()\<close>
  instead of returning the plaintext.
\<close>

theorem decrypt_encrypt_counterexample:
  "case encrypt_aes xor_cipher (Bytes [255]) demo_key demo_iv of
     Inl e \<Rightarrow> False
   | Inr r \<Rightarrow> decrypt_aes xor_cipher r demo_key = Inl UnicodeDecodeError"
  using roundtrip_core [OF xor_cipher_ok demo_lengths, of "Bytes [255]" "[255]"]
  by (simp add: encode_data_def split: sum.splits)

theorem decrypt_encrypt_roundtrip_witness:
  "aes_ok xor_cipher \<and> length demo_key = 32 \<and> length demo_iv = 16
   \<and> (case encrypt_aes xor_cipher (Str [104, 105]) demo_key demo_iv of
         Inl e \<Rightarrow> False
       | Inr r \<Rightarrow> decrypt_aes xor_cipher r demo_key = Inr [104, 105] \<and> length r = 32)
   \<and> encrypt_aes xor_cipher (Str [55296]) demo_key demo_iv = Inl UnicodeEncodeError"
  using decrypt_encrypt_roundtrip [OF xor_cipher_ok demo_lengths, of "Str [104, 105]"]
        decrypt_encrypt_roundtrip [OF xor_cipher_ok demo_lengths, of "Str [55296]"]
        xor_cipher_ok
  by (simp add: demo_lengths encode_data_def utf8_encode_cp_def pad_def Let_def
           split: sum.splits)

end
